theory Spec2Isabelle
  imports Complex_Main "HOL-Library.Multiset"
begin

section \<open>Python strings\<close>

text \<open>
  Python's \<open>str\<close> is a sequence of code points. The model uses \<^typ>\<open>string\<close> and reads
  each \<^typ>\<open>char\<close> as the code point of the same number, so it covers text whose code
  points are below 256. The character tests below are the ones Python applies in
  that range.
\<close>

abbreviation LF :: char where
  "LF \<equiv> CHR 0x0A"


definition is_space :: "char \<Rightarrow> bool" where
  \<comment> \<open>\<open>str.isspace\<close>, which is also \<open>\s\<close> of \<open>re\<close> on a \<open>str\<close> pattern\<close>
  "is_space c = (c \<in> set [CHR 0x20, CHR 0x09, CHR 0x0A, CHR 0x0B, CHR 0x0C, CHR 0x0D,
                            CHR 0x1C, CHR 0x1D, CHR 0x1E, CHR 0x1F, CHR 0x85, CHR 0xA0])"

definition is_digit :: "char \<Rightarrow> bool" where
  \<comment> \<open>\<open>\d\<close> of \<open>re\<close>\<close>
  "is_digit c = (c \<in> set ''0123456789'')"

definition is_upper_AZ :: "char \<Rightarrow> bool" where
  \<comment> \<open>the character class \<open>[A-Z]\<close>\<close>
  "is_upper_AZ c = (c \<in> set ''ABCDEFGHIJKLMNOPQRSTUVWXYZ'')"

definition is_lower_az :: "char \<Rightarrow> bool" where
  "is_lower_az c = (c \<in> set ''abcdefghijklmnopqrstuvwxyz'')"

definition lower_char :: "char \<Rightarrow> char" where
  \<comment> \<open>\<open>str.lower\<close> on one code point below 256: A-Z and the Latin-1 capitals move by 32\<close>
  "lower_char c =
     (let n = (of_char c :: nat)
      in if (65 \<le> n \<and> n \<le> 90) \<or> (192 \<le> n \<and> n \<le> 222 \<and> n \<noteq> 215)
         then char_of (n + 32) else c)"

definition lower :: "string \<Rightarrow> string" where
  "lower s = map lower_char s"

definition lstrip :: "string \<Rightarrow> string" where
  "lstrip s = dropWhile is_space s"

definition rstrip :: "string \<Rightarrow> string" where
  "rstrip s = rev (dropWhile is_space (rev s))"

definition strip :: "string \<Rightarrow> string" where
  \<comment> \<open>\<open>s.strip()\<close>\<close>
  "strip s = rstrip (lstrip s)"

fun join :: "string \<Rightarrow> string list \<Rightarrow> string" where
  \<comment> \<open>\<open>sep.join(parts)\<close>\<close>
  "join sep [] = []"
| "join sep [p] = p"
| "join sep (p # q # ps) = p @ sep @ join sep (q # ps)"

function py_split :: "string \<Rightarrow> string \<Rightarrow> string \<Rightarrow> string list" where
  \<comment> \<open>\<open>s.split(sep)\<close> for a non-empty \<open>sep\<close>: \<open>py_split sep [] s\<close>; the second argument
      is the piece being read\<close>
  "py_split sep cur [] = [cur]"
| "py_split sep cur (c # cs) =
     (if sep \<noteq> [] \<and> take (length sep) (c # cs) = sep
      then cur # py_split sep [] (drop (length sep) (c # cs))
      else py_split sep (cur @ [c]) cs)"
  by pat_completeness auto
termination
  by (relation "measure (\<lambda>(sep, cur, s). length s)") auto

definition split :: "string \<Rightarrow> string \<Rightarrow> string list" where
  "split s sep = py_split sep [] s"

definition endswith :: "string \<Rightarrow> string \<Rightarrow> bool" where
  "endswith s suf = (length suf \<le> length s \<and> drop (length s - length suf) s = suf)"

definition digit_char :: "nat \<Rightarrow> char" where
  "digit_char d = ''0123456789'' ! d"

fun str_nat :: "nat \<Rightarrow> string" where
  \<comment> \<open>\<open>str(n)\<close> for \<open>n \<ge> 0\<close>\<close>
  "str_nat n = (if n < 10 then [digit_char n] else str_nat (n div 10) @ [digit_char (n mod 10)])"

declare str_nat.simps [simp del]


section \<open>Regular expressions of the source\<close>

text \<open>
  Every pattern compiled by the source is an alternation of sequences of quantified
  character classes, anchored at the start of the subject (\<open>re.match\<close>, or a leading
  \<open>^\<close>). An item is a class with the least and the greatest number of repetitions
  (\<open>None\<close>: unbounded). \<open>match_seq\<close> is the backtracking matcher: each item first takes
  as many characters as it may and gives them back one at a time; the result is the
  rest of the subject after the first match found.
\<close>

type_synonym item = "(char \<Rightarrow> bool) \<times> nat \<times> nat option"

fun first_some :: "'a option list \<Rightarrow> 'a option" where
  "first_some [] = None"
| "first_some (None # rs) = first_some rs"
| "first_some (Some r # rs) = Some r"

fun match_seq :: "item list \<Rightarrow> string \<Rightarrow> string option" where
  "match_seq [] s = Some s"
| "match_seq ((P, lo, hi) # its) s =
     (let avail = length (takeWhile P s);
          most = (case hi of None \<Rightarrow> avail | Some h \<Rightarrow> min h avail)
      in first_some (map (\<lambda>n. match_seq its (drop n s)) (rev [lo ..< Suc most])))"

definition re_match :: "item list list \<Rightarrow> string \<Rightarrow> string option" where
  \<comment> \<open>the alternatives are tried in order\<close>
  "re_match alts s = first_some (map (\<lambda>alt. match_seq alt s) alts)"

definition re_sub_empty :: "item list list \<Rightarrow> string \<Rightarrow> string" where
  \<comment> \<open>\<open>re.sub('^...', '', s)\<close> for a pattern that matches no empty string\<close>
  "re_sub_empty alts s = (case re_match alts s of None \<Rightarrow> s | Some rest \<Rightarrow> rest)"

definition once :: "(char \<Rightarrow> bool) \<Rightarrow> item" where
  "once P = (P, 1, Some 1)"

definition opt :: "(char \<Rightarrow> bool) \<Rightarrow> item" where
  "opt P = (P, 0, Some 1)"

definition one_or_more :: "(char \<Rightarrow> bool) \<Rightarrow> item" where
  "one_or_more P = (P, 1, None)"

definition zero_or_more :: "(char \<Rightarrow> bool) \<Rightarrow> item" where
  "zero_or_more P = (P, 0, None)"

definition lit_ci :: "char \<Rightarrow> char \<Rightarrow> bool" where
  \<comment> \<open>a literal under \<open>re.IGNORECASE\<close>\<close>
  "lit_ci a c = (lower_char c = lower_char a)"

definition AZ_ci :: "char \<Rightarrow> bool" where
  \<comment> \<open>\<open>[A-Z]\<close> under \<open>re.IGNORECASE\<close>\<close>
  "AZ_ci c = (is_upper_AZ c \<or> is_lower_az c)"

definition word_ci :: "string \<Rightarrow> item list" where
  "word_ci w = map (\<lambda>a. once (lit_ci a)) w"

section \<open>Chunking by topic\<close>

record chunk =
  title :: string
  content :: string

definition heading_pattern :: "item list list" where
  \<comment> \<open>\<open>^(#{1,3}\s+|Chapter\s+\d+[:\-]?\s*|Section\s+\d+[:\-]?\s*|[A-Z][A-Z\s]{5,50}:?)\<close>
      compiled with \<open>re.IGNORECASE\<close>\<close>
  "heading_pattern =
     [ [((\<lambda>c. c = CHR ''#''), 1, Some 3), one_or_more is_space],
       word_ci ''Chapter'' @
         [one_or_more is_space, one_or_more is_digit, opt (\<lambda>c. c \<in> set '':-''),
          zero_or_more is_space],
       word_ci ''Section'' @
         [one_or_more is_space, one_or_more is_digit, opt (\<lambda>c. c \<in> set '':-''),
          zero_or_more is_space],
       [once AZ_ci, ((\<lambda>c. AZ_ci c \<or> is_space c), 5, Some 50), opt (\<lambda>c. c = CHR '':'')] ]"

definition is_heading :: "string \<Rightarrow> bool" where
  \<comment> \<open>\<open>heading_pattern.match(para)\<close> is not \<open>None\<close>\<close>
  "is_heading para = (re_match heading_pattern para \<noteq> None)"







section \<open>Errors and the outside world\<close>

datatype error =
  BackendFailure string  \<comment> \<open>an exception of the embedding, completion or index client\<close>
| IOError string  \<comment> \<open>an exception of the file readers\<close>
| AttributeError  \<comment> \<open>a method called on \<open>None\<close>\<close>
| ValueError string

record metadata =
  md_title :: string
  md_text :: "string option"
  md_source :: string
  md_created_at :: int
  md_expires_at :: "int option"

record 'v vector =
  vec_id :: string
  vec_values :: 'v
  vec_metadata :: "metadata option"

record match =
  match_id :: string
  score :: "rat option"
  metadata :: "metadata option"

text \<open>
  The clients and the wall clock are parameters. \<open>clock env n\<close> is the \<open>n\<close>-th reading
  of the wall clock in epoch seconds; \<open>utc_offset\<close> is the offset of the host's local
  time zone in seconds east of UTC; \<open>similarity\<close> is the metric of the index. Floats
  are modelled by the rationals they denote. The \<open>print\<close> calls are left out.
\<close>

record 'v env =
  PINECONE_NEW :: bool
  embeddings_create :: "string \<Rightarrow> error + ('v \<times> nat)"
  chat_create :: "(string \<times> string) list \<Rightarrow> rat \<Rightarrow> nat \<Rightarrow> error + (string option \<times> nat \<times> nat)"
  index_upsert_call :: "'v vector \<Rightarrow> error option"
  similarity :: "'v \<Rightarrow> 'v \<Rightarrow> rat"
  clock :: "nat \<Rightarrow> rat"
  utc_offset :: int

record 'v world =
  reads :: nat  \<comment> \<open>how often the clock has been read\<close>
  vectors :: "'v vector list"  \<comment> \<open>the records of the namespace\<close>

definition TOP_K :: nat where
  "TOP_K = 6"

definition MIN_SCORE :: rat where
  "MIN_SCORE = 25 / 100"

definition MAX_CONTEXT_CHARS :: nat where
  "MAX_CONTEXT_CHARS = 7000"

definition DEFAULT_TTL_HOURS :: int where
  "DEFAULT_TTL_HOURS = 24 * 7"

definition py_int :: "rat \<Rightarrow> int" where
  \<comment> \<open>\<open>int(x)\<close> of a float: truncation towards zero\<close>
  "py_int x = (if 0 \<le> x then \<lfloor>x\<rfloor> else \<lceil>x\<rceil>)"

definition time_time :: "'v env \<Rightarrow> 'v world \<Rightarrow> rat \<times> 'v world" where
  \<comment> \<open>\<open>time.time()\<close>\<close>
  "time_time env w = (clock env (reads w), w\<lparr>reads := Suc (reads w)\<rparr>)"

definition embed_text :: "'v env \<Rightarrow> string \<Rightarrow> error + ('v \<times> nat)" where
  "embed_text env t = embeddings_create env t"

section \<open>Extraction\<close>

record files =
  PyPDF2 :: bool  \<comment> \<open>the optional import succeeded\<close>
  docx2txt :: bool
  pdf_pages :: "string \<Rightarrow> error + string option list"  \<comment> \<open>\<open>page.extract_text()\<close> of each page\<close>
  read_text :: "string \<Rightarrow> error + string"
  docx_process :: "string \<Rightarrow> error + string"
  csv_rows :: "string \<Rightarrow> error + string list list"

definition splitext :: "string \<Rightarrow> string \<times> string" where
  \<comment> \<open>\<open>os.path.splitext\<close> of \<open>posixpath\<close>: the extension starts at the last dot of the last
      component, unless only dots precede it there\<close>
  "splitext p =
     (let base = rev (takeWhile (\<lambda>c. c \<noteq> CHR ''/'') (rev p));
          after = rev (takeWhile (\<lambda>c. c \<noteq> CHR ''.'') (rev base));
          stem = take (length base - length after - 1) base
      in if CHR ''.'' \<in> set base \<and> (\<exists>c \<in> set stem. c \<noteq> CHR ''.'')
         then (take (length p - length after - 1) p, CHR ''.'' # after)
         else (p, []))"

definition extract_try :: "files \<Rightarrow> string \<Rightarrow> error + string" where
  \<comment> \<open>the body of the \<open>try\<close>\<close>
  "extract_try fs filepath =
     (let ext = lower (snd (splitext filepath))
      in if ext = ''.pdf'' \<and> PyPDF2 fs then
           (case pdf_pages fs filepath of
              Inl e \<Rightarrow> Inl e
            | Inr pages \<Rightarrow>
                Inr (join [LF, LF] (map (\<lambda>page. case page of None \<Rightarrow> [] | Some t \<Rightarrow> t) pages)))
         else if ext = ''.txt'' then read_text fs filepath
         else if ext = ''.docx'' \<and> docx2txt fs then docx_process fs filepath
         else if ext = ''.csv'' then
           (case csv_rows fs filepath of
              Inl e \<Rightarrow> Inl e
            | Inr rows \<Rightarrow> Inr (join [LF] (map (join '', '') rows)))
         else Inl (ValueError (''Unsupported file: '' @ ext)))"

definition extract_text_from_file :: "files \<Rightarrow> string \<Rightarrow> error + string" where
  \<comment> \<open>\<open>except Exception\<close>: every error of the body becomes the empty string\<close>
  "extract_text_from_file fs filepath =
     (case extract_try fs filepath of Inl e \<Rightarrow> Inr [] | Inr t \<Rightarrow> Inr t)"

section \<open>Upsert with expiry\<close>






section \<open>Retrieval\<close>

datatype query_filter =
  ExpiresAtGt int  \<comment> \<open>\<open>{"expires_at": {"$gt": current_ts}}\<close>\<close>

definition satisfies :: "query_filter option \<Rightarrow> metadata option \<Rightarrow> bool" where
  \<comment> \<open>Modelled from the spec: the \<open>expires_at > now\<close> filter of the vector index; a record
      matches a comparison on a field only if it carries the field\<close>
  "satisfies flt md =
     (case flt of
        None \<Rightarrow> True
      | Some (ExpiresAtGt ts) \<Rightarrow>
          (case md of
             None \<Rightarrow> False
           | Some d \<Rightarrow> (case md_expires_at d of None \<Rightarrow> False | Some e \<Rightarrow> e > ts)))"

definition get_score :: "match \<Rightarrow> rat" where
  \<comment> \<open>\<open>m.get("score", 0)\<close>\<close>
  "get_score m = (case score m of None \<Rightarrow> 0 | Some x \<Rightarrow> x)"

definition to_match :: "'v env \<Rightarrow> 'v \<Rightarrow> 'v vector \<Rightarrow> match" where
  "to_match env qvec v =
     \<lparr>match_id = vec_id v, score = Some (similarity env qvec (vec_values v)),
      metadata = vec_metadata v\<rparr>"

definition index_query ::
  "'v env \<Rightarrow> 'v vector list \<Rightarrow> 'v \<Rightarrow> nat \<Rightarrow> query_filter option \<Rightarrow> match list" where
  \<comment> \<open>Modelled from the spec: the \<open>query\<close> of the vector index, which returns up to \<open>top_k\<close>
      nearest records of the namespace among those that satisfy the filter, nearest first\<close>
  "index_query env vs qvec top_k flt =
     take top_k
       (sort_key (\<lambda>m. - get_score m)
          (map (to_match env qvec) (filter (\<lambda>v. satisfies flt (vec_metadata v)) vs)))"

definition not_expired :: "int \<Rightarrow> match \<Rightarrow> bool" where
  \<comment> \<open>\<open>m.get("metadata", {}).get("expires_at", float('inf')) > current_ts\<close>\<close>
  "not_expired current_ts m =
     (case metadata m of
        None \<Rightarrow> True
      | Some d \<Rightarrow> (case md_expires_at d of None \<Rightarrow> True | Some e \<Rightarrow> e > current_ts))"

definition get_text :: "match \<Rightarrow> string" where
  \<comment> \<open>\<open>(m.get("metadata") or {}).get("text", "")\<close>, the empty string also for a missing text\<close>
  "get_text m =
     (case metadata m of
        None \<Rightarrow> []
      | Some d \<Rightarrow> (case md_text d of None \<Rightarrow> [] | Some t \<Rightarrow> t))"

definition query_matches :: "'v env \<Rightarrow> 'v vector list \<Rightarrow> 'v \<Rightarrow> nat \<Rightarrow> int \<Rightarrow> match list" where
  \<comment> \<open>the two branches on \<open>PINECONE_NEW\<close>\<close>
  "query_matches env vs qvec top_k current_ts =
     (if PINECONE_NEW env
      then index_query env vs qvec top_k
             (if DEFAULT_TTL_HOURS > 0 then Some (ExpiresAtGt current_ts) else None)
      else (let matches = index_query env vs qvec top_k None
            in if DEFAULT_TTL_HOURS > 0 then filter (not_expired current_ts) matches
               else matches))"

definition retrieve ::
  "'v env \<Rightarrow> string \<Rightarrow> nat \<Rightarrow> 'v world \<Rightarrow> (error + match list) \<times> 'v world" where
  "retrieve env query top_k w =
     (case embed_text env query of
        Inl e \<Rightarrow> (Inl e, w)
      | Inr (qvec, _) \<Rightarrow>
          let (t, w1) = time_time env w;
              current_ts = py_int t;
              matches = query_matches env (vectors w1) qvec top_k current_ts
          in (Inr (filter (\<lambda>m. get_text m \<noteq> []) matches), w1))"

section \<open>Context assembly\<close>

definition round_half_even :: "rat \<Rightarrow> int" where
  "round_half_even x =
     (let f = \<lfloor>x\<rfloor>; d = x - of_int f
      in if d < 1 / 2 then f else if 1 / 2 < d then f + 1 else if even f then f else f + 1)"

definition format_3f :: "rat \<Rightarrow> string" where
  \<comment> \<open>the format \<open>:.3f\<close>: three decimals of the value the float denotes, ties to even\<close>
  "format_3f x =
     (let n = nat (round_half_even (\<bar>x\<bar> * 1000));
          frac = str_nat (n mod 1000)
      in (if x < 0 then ''-'' else []) @ str_nat (n div 1000) @ ''.'' @
         replicate (3 - length frac) (CHR ''0'') @ frac)"

definition format_chunk :: "nat \<Rightarrow> match \<Rightarrow> string \<Rightarrow> string" where
  \<comment> \<open>\<open>f"[{i} | score={m.get('score', 0):.3f}]\n{t}\n"\<close>\<close>
  "format_chunk i m t =
     ''['' @ str_nat i @ '' | score='' @ format_3f (get_score m) @ '']'' @ [LF] @ t @ [LF]"

fun context_loop :: "(nat \<times> match) list \<Rightarrow> string list \<Rightarrow> nat \<Rightarrow> string list" where
  \<comment> \<open>the loop over \<open>enumerate(matches, 1)\<close> with \<open>parts\<close> and \<open>size\<close>\<close>
  "context_loop [] parts sz = parts"
| "context_loop ((i, m) # rest) parts sz =
     (let t = get_text m
      in if t = [] then context_loop rest parts sz
         else (let chunk = format_chunk i m t
               in if sz + length chunk > MAX_CONTEXT_CHARS then parts
                  else context_loop rest (parts @ [chunk]) (sz + length chunk)))"

definition sorted_matches :: "match list \<Rightarrow> match list" where
  \<comment> \<open>\<open>sorted(matches, key=lambda m: m.get("score", 0), reverse=True)\<close>, which is stable\<close>
  "sorted_matches matches = sort_key (\<lambda>m. - get_score m) matches"

definition build_context :: "match list \<Rightarrow> string" where
  "build_context matches =
     join [LF] (context_loop (enumerate 1 (sorted_matches matches)) [] 0)"

section \<open>Answers\<close>

definition user_prompt :: "string \<Rightarrow> string \<Rightarrow> string" where
  "user_prompt question context =
     (if context \<noteq> []
      then ''Question:'' @ [LF] @ question @ [LF, LF] @ ''Context:'' @ [LF] @ context
      else ''Question:'' @ [LF] @ question)"

definition sys_prompt :: "string \<Rightarrow> string \<Rightarrow> string" where
  "sys_prompt style lang =
     (let lang_instr = (if lang = ''hi'' then ''Answer in Hindi using Devanagari script.''
                        else ''Answer in English.'');
          style_instr = (if style = ''detailed''
                         then ''Provide detailed explanation with examples.''
                         else ''Keep answer concise.'')
      in ''You are Ycotes, an AI tutor. '' @ lang_instr @ '' '' @ style_instr @
         '' Use context if provided.'')"

definition ask_llm ::
  "'v env \<Rightarrow> string \<Rightarrow> string \<Rightarrow> string \<Rightarrow> string \<Rightarrow> error + (string \<times> nat \<times> nat)" where
  "ask_llm env question context style lang =
     (case chat_create env
             [(''system'', sys_prompt style lang), (''user'', user_prompt question context)]
             (if style = ''concise'' then 4 / 10 else 7 / 10)
             (if style = ''concise'' then 300 else 800) of
        Inl e \<Rightarrow> Inl e
      | Inr (None, in_t, out_t) \<Rightarrow> Inl AttributeError
      | Inr (Some c, in_t, out_t) \<Rightarrow> Inr (strip c, in_t, out_t))"

definition answer_text :: "error + (string \<times> nat \<times> nat) \<Rightarrow> error + string" where
  \<comment> \<open>\<open>ans, _, _ = ...; return ans\<close>\<close>
  "answer_text r = (case r of Inl e \<Rightarrow> Inl e | Inr (ans, _, _) \<Rightarrow> Inr ans)"

definition answer ::
  "'v env \<Rightarrow> string \<Rightarrow> string \<Rightarrow> string \<Rightarrow> 'v world \<Rightarrow> (error + string) \<times> 'v world" where
  "answer env question style lang w =
     (case retrieve env question TOP_K w of
        (Inl e, w1) \<Rightarrow> (Inl e, w1)
      | (Inr matches, w1) \<Rightarrow>
          let strong = filter (\<lambda>m. get_score m \<ge> MIN_SCORE) matches
          in if strong = [] then (answer_text (ask_llm env question [] style lang), w1)
             else (let ctx = build_context strong
                   in (answer_text (ask_llm env question ctx style lang), w1)))"

section \<open>Sub-questions\<close>

definition sub_question_prompt :: "string \<Rightarrow> string \<Rightarrow> string" where
  "sub_question_prompt main_question lang =
     (let lang_prompt = (if lang = ''hi'' then ''Generate questions in Hindi.''
                         else ''Generate questions in English.'')
      in [LF] @
         ''Generate exactly 3 foundational sub-questions based on this main question: '' @
         [CHR 0x22] @ main_question @ [CHR 0x22, LF, LF] @
         ''Rules:'' @ [LF] @
         ''- Generate exactly 3 questions'' @ [LF] @
         ''- Make them simple and foundational'' @ [LF] @
         ''- '' @ lang_prompt @ [LF] @
         ''- Respond ONLY with the 3 questions, one per line'' @ [LF] @
         ''- No numbering, no bullets, no extra text'' @ [LF, LF] @
         ''Example output:'' @ [LF] @
         ''What is a data structure?'' @ [LF] @
         ''What is an algorithm?'' @ [LF] @
         ''Why are data structures important?'' @ [LF])"

definition clean_line :: "string \<Rightarrow> string" where
  \<comment> \<open>\<open>re.sub(r'^\d+[\.\)]\s*', '', line)\<close>, then \<open>re.sub(r'^[-\*]\s*', '', line)\<close>\<close>
  "clean_line line =
     re_sub_empty [[once (\<lambda>c. c \<in> set ''-*''), zero_or_more is_space]]
       (re_sub_empty [[one_or_more is_digit, once (\<lambda>c. c \<in> set ''.)''), zero_or_more is_space]]
          line)"

fun clean_loop :: "string list \<Rightarrow> string list \<Rightarrow> string list" where
  \<comment> \<open>the loop over \<open>raw.split('\n')\<close> with \<open>cleaned_questions\<close>\<close>
  "clean_loop [] cleaned_questions = cleaned_questions"
| "clean_loop (l # ls) cleaned_questions =
     (let line = strip l
      in if line = [] then clean_loop ls cleaned_questions
         else (let line = clean_line line
               in if length line > 150 \<or> \<not> endswith line ''?''
                  then clean_loop ls cleaned_questions
                  else clean_loop ls (cleaned_questions @ [line])))"

definition fallback :: "string \<Rightarrow> string list" where
  \<comment> \<open>\<open>[f"What is {main_question}?"]\<close>\<close>
  "fallback main_question = [''What is '' @ main_question @ ''?'']"

definition sub_questions_try :: "'v env \<Rightarrow> string \<Rightarrow> string \<Rightarrow> error + string list" where
  \<comment> \<open>the body of the \<open>try\<close>\<close>
  "sub_questions_try env main_question lang =
     (case chat_create env [(''user'', sub_question_prompt main_question lang)] (1 / 10) 150 of
        Inl e \<Rightarrow> Inl e
      | Inr (None, _, _) \<Rightarrow> Inl AttributeError
      | Inr (Some c, _, _) \<Rightarrow>
          let raw = strip c;
              cleaned_questions = clean_loop (split raw [LF]) []
          in if length cleaned_questions = 0 then Inr (fallback main_question)
             else Inr (take 3 cleaned_questions))"

definition generate_sub_questions :: "'v env \<Rightarrow> string \<Rightarrow> string \<Rightarrow> error + string list" where
  \<comment> \<open>\<open>except Exception\<close>: every error of the body becomes the fallback\<close>
  "generate_sub_questions env main_question lang =
     (case sub_questions_try env main_question lang of
        Inl e \<Rightarrow> Inr (fallback main_question)
      | Inr qs \<Rightarrow> Inr qs)"

section \<open>Example inputs\<close>

text \<open>
  A small world for the concrete cases: vectors have one dimension, the metric is the
  product, every text embeds to the vector 1, the clock starts at 1000 and advances by
  a second and a half with every reading, and the host runs in UTC.
\<close>

definition demo_env :: "rat env" where
  "demo_env =
     \<lparr>PINECONE_NEW = True,
      embeddings_create = (\<lambda>t. Inr (1, length t)),
      chat_create = (\<lambda>msgs temperature max_tokens. Inr (Some (snd (last msgs)), 40, 20)),
      index_upsert_call = (\<lambda>v. None),
      similarity = (\<lambda>q v. q * v),
      clock = (\<lambda>n. 1000 + of_nat n * 3 / 2),
      utc_offset = 0\<rparr>"

definition talkative_env :: "rat env" where
  \<comment> \<open>a completion client that numbers its lines and adds a remark\<close>
  "talkative_env =
     demo_env\<lparr>chat_create := (\<lambda>msgs temperature max_tokens.
       Inr (Some ''1. What is a tree?\<newline>- Why?\<newline>\<newline>a remark\<newline>What is a leaf?\<newline>What is a root?'',
            40, 20))\<rparr>"

definition failing_env :: "rat env" where
  \<comment> \<open>a completion client that raises\<close>
  "failing_env =
     demo_env\<lparr>chat_create := (\<lambda>msgs temperature max_tokens. Inl (BackendFailure ''timeout''))\<rparr>"

definition demo_files :: files where
  \<comment> \<open>readers that succeed on every path; \<open>docx2txt\<close> is not installed\<close>
  "demo_files =
     \<lparr>PyPDF2 = True, docx2txt = False,
      pdf_pages = (\<lambda>p. Inr [Some ''page one'', None]),
      read_text = (\<lambda>p. Inr ''plain text''),
      docx_process = (\<lambda>p. Inr ''document''),
      csv_rows = (\<lambda>p. Inr [[''a'', ''b''], [''c'', ''d'']])\<rparr>"

definition match_of :: "string \<Rightarrow> rat \<Rightarrow> string \<Rightarrow> match" where
  \<comment> \<open>a match as the index returns it for a record written by \<open>upsert_chunks\<close>\<close>
  "match_of i s t =
     \<lparr>match_id = i, score = Some s,
      metadata = Some \<lparr>md_title = ''Notes'', md_text = Some t, md_source = ''file_notes.txt'',
                        md_created_at = 1000, md_expires_at = Some 605800\<rparr>\<rparr>"

definition two_halves :: "match list" where
  \<comment> \<open>two matches whose formatted chunks have 3500 characters each\<close>
  "two_halves =
     [match_of ''a'' (9 / 10) (replicate 3481 (CHR ''a'')),
      match_of ''b'' (7 / 10) (replicate 3481 (CHR ''b''))]"

definition tie_small :: match where
  "tie_small = match_of ''a'' (1 / 2) ''a''"

definition tie_large :: match where
  \<comment> \<open>the same score; its chunk alone has exactly 7000 characters\<close>
  "tie_large = match_of ''b'' (1 / 2) (replicate 6981 (CHR ''b''))"

definition vector_of :: "string \<Rightarrow> rat \<Rightarrow> string \<Rightarrow> int option \<Rightarrow> rat vector" where
  \<comment> \<open>a stored record; its only coordinate is also its similarity to the query\<close>
  "vector_of i x t e =
     \<lparr>vec_id = i, vec_values = x,
      vec_metadata = Some \<lparr>md_title = ''Notes'', md_text = Some t, md_source = ''file_notes.txt'',
                            md_created_at = 1000, md_expires_at = e\<rparr>\<rparr>"




definition legacy_env :: "rat env" where
  \<comment> \<open>the same world with the old client, which filters after the query\<close>
  "legacy_env = demo_env\<lparr>PINECONE_NEW := False\<rparr>"

definition expired_near_world :: "rat world" where
  \<comment> \<open>the nearest record expired at 500, the other one lives until 605800\<close>
  "expired_near_world =
     \<lparr>reads = 0,
      vectors = [vector_of ''near'' (9 / 10) ''Old notes.'' (Some 500),
                 vector_of ''far'' (1 / 2) ''New notes.'' (Some 605800)]\<rparr>"

definition no_expiry_world :: "rat world" where
  \<comment> \<open>a record written with \<open>ttl_hours = 0\<close>\<close>
  "no_expiry_world = \<lparr>reads = 0, vectors = [vector_of ''plain'' (9 / 10) ''Kept for ever.'' None]\<rparr>"





section \<open>Properties of the chunker\<close>






text \<open>
  What the heading pattern accepts: one to three \<open>#\<close> and a whitespace character; or
  the word Chapter or Section in any case, whitespace and a digit; or a letter of
  either case followed by at least five letters or whitespace characters. What
  follows the matched prefix does not matter.
\<close>

lemma first_some_map_iff:
  "first_some (map f xs) \<noteq> None \<longleftrightarrow> (\<exists>x \<in> set xs. f x \<noteq> None)"
proof (induction xs)
  case Nil
  then show ?case by simp
next
  case (Cons x xs)
  then show ?case by (cases "f x") simp_all
qed

lemma match_seq_Cons_iff:
  "match_seq ((P, lo, hi) # its) s \<noteq> None \<longleftrightarrow>
     (\<exists>n. lo \<le> n \<and> n \<le> length (takeWhile P s) \<and> (\<forall>h. hi = Some h \<longrightarrow> n \<le> h) \<and>
          match_seq its (drop n s) \<noteq> None)"
proof -
  define most where
    "most = (case hi of None \<Rightarrow> length (takeWhile P s) | Some h \<Rightarrow> min h (length (takeWhile P s)))"
  have bound: "n \<le> most \<longleftrightarrow> n \<le> length (takeWhile P s) \<and> (\<forall>h. hi = Some h \<longrightarrow> n \<le> h)" for n
    by (cases hi) (auto simp: most_def)
  have "match_seq ((P, lo, hi) # its) s =
      first_some (map (\<lambda>n. match_seq its (drop n s)) (rev [lo ..< Suc most]))"
    by (simp add: Let_def most_def)
  then have "match_seq ((P, lo, hi) # its) s \<noteq> None \<longleftrightarrow>
      (\<exists>n \<in> set (rev [lo ..< Suc most]). match_seq its (drop n s) \<noteq> None)"
    by (simp only: first_some_map_iff)
  also have "\<dots> \<longleftrightarrow> (\<exists>n. lo \<le> n \<and> n \<le> most \<and> match_seq its (drop n s) \<noteq> None)"
    by (auto simp: less_Suc_eq_le)
  finally show ?thesis
    by (simp only: bound conj_assoc)
qed

lemma match_seq_optional:
  "\<forall>it \<in> set its. fst (snd it) = 0 \<Longrightarrow> match_seq its s \<noteq> None"
proof (induction its)
  case Nil
  then show ?case by simp
next
  case (Cons it its)
  obtain P hi where it: "it = (P, 0, hi)"
    using Cons.prems by (cases it) auto
  have "match_seq its (drop 0 s) \<noteq> None"
    using Cons by simp
  then show ?case
    unfolding it match_seq_Cons_iff by (intro exI [of _ 0]) simp
qed

lemma le_length_takeWhile_iff:
  "n \<le> length (takeWhile P s) \<longleftrightarrow> n \<le> length s \<and> (\<forall>c \<in> set (take n s). P c)"
proof (induction s arbitrary: n)
  case Nil
  then show ?case by simp
next
  case (Cons a s)
  then show ?case by (cases n) auto
qed

lemma match_once_iff:
  "match_seq (once P # its) s \<noteq> None \<longleftrightarrow> (\<exists>c r. s = c # r \<and> P c \<and> match_seq its r \<noteq> None)"
proof -
  have "match_seq (once P # its) s \<noteq> None \<longleftrightarrow>
      1 \<le> length (takeWhile P s) \<and> match_seq its (drop 1 s) \<noteq> None"
    unfolding once_def match_seq_Cons_iff by (auto simp: le_antisym)
  also have "\<dots> \<longleftrightarrow> (\<exists>c r. s = c # r \<and> P c \<and> match_seq its r \<noteq> None)"
    by (cases s) auto
  finally show ?thesis .
qed

lemma match_word_ci_iff:
  "match_seq (word_ci w @ its) s \<noteq> None \<longleftrightarrow>
     (\<exists>u r. s = u @ r \<and> length u = length w \<and> lower u = lower w \<and> match_seq its r \<noteq> None)"
proof (induction w arbitrary: s)
  case Nil
  then show ?case by (simp add: word_ci_def)
next
  case (Cons a w)
  have "match_seq (word_ci (a # w) @ its) s \<noteq> None \<longleftrightarrow>
      (\<exists>c r. s = c # r \<and> lit_ci a c \<and> match_seq (word_ci w @ its) r \<noteq> None)"
    using match_once_iff [of "lit_ci a" "word_ci w @ its" s] by (simp add: word_ci_def)
  also have "\<dots> \<longleftrightarrow> (\<exists>c u r. s = c # u @ r \<and> lit_ci a c \<and> length u = length w \<and>
      lower u = lower w \<and> match_seq its r \<noteq> None)"
    unfolding Cons.IH by blast
  also have "\<dots> \<longleftrightarrow> (\<exists>u r. s = u @ r \<and> length u = length (a # w) \<and>
      lower u = lower (a # w) \<and> match_seq its r \<noteq> None)"
  proof
    assume "\<exists>c u r. s = c # u @ r \<and> lit_ci a c \<and> length u = length w \<and>
      lower u = lower w \<and> match_seq its r \<noteq> None"
    then obtain c u r where "s = (c # u) @ r" "lit_ci a c" "length u = length w"
      "lower u = lower w" "match_seq its r \<noteq> None"
      by auto
    then show "\<exists>u r. s = u @ r \<and> length u = length (a # w) \<and>
      lower u = lower (a # w) \<and> match_seq its r \<noteq> None"
      by (intro exI [of _ "c # u"] exI [of _ r]) (simp add: lower_def lit_ci_def)
  next
    assume "\<exists>u r. s = u @ r \<and> length u = length (a # w) \<and>
      lower u = lower (a # w) \<and> match_seq its r \<noteq> None"
    then obtain u r where u: "s = u @ r" "length u = length (a # w)"
      "lower u = lower (a # w)" "match_seq its r \<noteq> None"
      by auto
    then obtain c u' where "u = c # u'"
      by (cases u) auto
    with u show "\<exists>c u r. s = c # u @ r \<and> lit_ci a c \<and> length u = length w \<and>
      lower u = lower w \<and> match_seq its r \<noteq> None"
      by (intro exI [of _ c] exI [of _ u'] exI [of _ r]) (simp add: lower_def lit_ci_def)
  qed
  finally show ?case .
qed

lemma match_run_then_char_iff:
  assumes "\<forall>it \<in> set its. fst (snd it) = 0"
  shows "match_seq (one_or_more P # one_or_more Q # its) s \<noteq> None \<longleftrightarrow>
     (\<exists>ws d r. s = ws @ d # r \<and> ws \<noteq> [] \<and> (\<forall>c \<in> set ws. P c) \<and> Q d)"
proof -
  have tail: "match_seq its t \<noteq> None" for t
    using assms by (rule match_seq_optional)
  have "match_seq (one_or_more P # one_or_more Q # its) s \<noteq> None \<longleftrightarrow>
      (\<exists>n. 1 \<le> n \<and> n \<le> length (takeWhile P s) \<and> 1 \<le> length (takeWhile Q (drop n s)))"
    unfolding one_or_more_def match_seq_Cons_iff using tail by auto
  also have "\<dots> \<longleftrightarrow> (\<exists>ws d r. s = ws @ d # r \<and> ws \<noteq> [] \<and> (\<forall>c \<in> set ws. P c) \<and> Q d)"
  proof
    assume "\<exists>n. 1 \<le> n \<and> n \<le> length (takeWhile P s) \<and> 1 \<le> length (takeWhile Q (drop n s))"
    then obtain n where n: "1 \<le> n" "n \<le> length (takeWhile P s)"
      "1 \<le> length (takeWhile Q (drop n s))"
      by blast
    from n(2) have p: "n \<le> length s" "\<forall>c \<in> set (take n s). P c"
      by (simp_all add: le_length_takeWhile_iff)
    from n(3) obtain d r where d: "drop n s = d # r" "Q d"
      by (cases "drop n s") (auto split: if_splits)
    have "s = take n s @ d # r"
      using d(1) by (metis append_take_drop_id)
    moreover have "take n s \<noteq> []"
      using n(1) p(1) by auto
    ultimately show "\<exists>ws d r. s = ws @ d # r \<and> ws \<noteq> [] \<and> (\<forall>c \<in> set ws. P c) \<and> Q d"
      using p(2) d(2) by blast
  next
    assume "\<exists>ws d r. s = ws @ d # r \<and> ws \<noteq> [] \<and> (\<forall>c \<in> set ws. P c) \<and> Q d"
    then obtain ws d r where w: "s = ws @ d # r" "ws \<noteq> []" "\<forall>c \<in> set ws. P c" "Q d"
      by blast
    have "length ws \<le> length (takeWhile P s)"
      using w(1,3) by (simp add: le_length_takeWhile_iff)
    moreover have "1 \<le> length ws"
      using w(2) by (cases ws) simp_all
    moreover have "1 \<le> length (takeWhile Q (drop (length ws) s))"
      using w(1,4) by simp
    ultimately show "\<exists>n. 1 \<le> n \<and> n \<le> length (takeWhile P s) \<and>
        1 \<le> length (takeWhile Q (drop n s))"
      by blast
  qed
  finally show ?thesis .
qed

lemma match_markdown_iff:
  "match_seq [((\<lambda>c. c = CHR ''#''), 1, Some 3), one_or_more is_space] p \<noteq> None \<longleftrightarrow>
     (\<exists>n r. 1 \<le> n \<and> n \<le> 3 \<and> p = replicate n (CHR ''#'') @ r \<and> r \<noteq> [] \<and> is_space (hd r))"
proof -
  have "match_seq [((\<lambda>c. c = CHR ''#''), 1, Some 3), one_or_more is_space] p \<noteq> None \<longleftrightarrow>
      (\<exists>n. 1 \<le> n \<and> n \<le> 3 \<and> n \<le> length (takeWhile (\<lambda>c. c = CHR ''#'') p) \<and>
           1 \<le> length (takeWhile is_space (drop n p)))"
    unfolding one_or_more_def match_seq_Cons_iff by auto
  also have "\<dots> \<longleftrightarrow>
      (\<exists>n r. 1 \<le> n \<and> n \<le> 3 \<and> p = replicate n (CHR ''#'') @ r \<and> r \<noteq> [] \<and> is_space (hd r))"
  proof
    assume "\<exists>n. 1 \<le> n \<and> n \<le> 3 \<and> n \<le> length (takeWhile (\<lambda>c. c = CHR ''#'') p) \<and>
           1 \<le> length (takeWhile is_space (drop n p))"
    then obtain n where n: "1 \<le> n" "n \<le> 3" "n \<le> length (takeWhile (\<lambda>c. c = CHR ''#'') p)"
      "1 \<le> length (takeWhile is_space (drop n p))"
      by blast
    from n(3) have "n \<le> length p" "\<forall>c \<in> set (take n p). c = CHR ''#''"
      by (simp_all add: le_length_takeWhile_iff)
    then have "take n p = replicate n (CHR ''#'')"
      using replicate_length_same [of "take n p" "CHR ''#''"] by simp
    then have "p = replicate n (CHR ''#'') @ drop n p"
      by (metis append_take_drop_id)
    moreover from n(4) have "drop n p \<noteq> []" "is_space (hd (drop n p))"
      by (cases "drop n p"; auto split: if_splits)+
    ultimately show "\<exists>n r. 1 \<le> n \<and> n \<le> 3 \<and> p = replicate n (CHR ''#'') @ r \<and> r \<noteq> [] \<and>
        is_space (hd r)"
      using n(1,2) by blast
  next
    assume "\<exists>n r. 1 \<le> n \<and> n \<le> 3 \<and> p = replicate n (CHR ''#'') @ r \<and> r \<noteq> [] \<and> is_space (hd r)"
    then obtain n r where r: "1 \<le> n" "n \<le> 3" "p = replicate n (CHR ''#'') @ r" "r \<noteq> []"
      "is_space (hd r)"
      by blast
    have "n \<le> length (takeWhile (\<lambda>c. c = CHR ''#'') p)"
      using r(3) by (simp add: le_length_takeWhile_iff)
    moreover have "1 \<le> length (takeWhile is_space (drop n p))"
      using r(3,4,5) by (cases r) simp_all
    ultimately show "\<exists>n. 1 \<le> n \<and> n \<le> 3 \<and> n \<le> length (takeWhile (\<lambda>c. c = CHR ''#'') p) \<and>
        1 \<le> length (takeWhile is_space (drop n p))"
      using r(1,2) by blast
  qed
  finally show ?thesis .
qed

lemma match_numbered_iff:
  "match_seq (word_ci w @ [one_or_more is_space, one_or_more is_digit,
       opt (\<lambda>c. c \<in> set '':-''), zero_or_more is_space]) p \<noteq> None \<longleftrightarrow>
     (\<exists>u ws d r. p = u @ ws @ d # r \<and> lower u = lower w \<and> ws \<noteq> [] \<and>
        (\<forall>c \<in> set ws. is_space c) \<and> is_digit d)"
proof -
  have opt: "\<forall>it \<in> set [opt (\<lambda>c. c \<in> set '':-''), zero_or_more is_space]. fst (snd it) = 0"
    by (simp add: opt_def zero_or_more_def)
  have len: "lower u = lower w \<Longrightarrow> length u = length w" for u
    unfolding lower_def by (rule map_eq_imp_length_eq)
  show ?thesis
    unfolding match_word_ci_iff match_run_then_char_iff [OF opt]
    using len by blast
qed

lemma match_capitals_iff:
  "match_seq [once AZ_ci, ((\<lambda>c. AZ_ci c \<or> is_space c), 5, Some 50), opt (\<lambda>c. c = CHR '':'')] p
       \<noteq> None \<longleftrightarrow>
     (\<exists>c r. p = c # r \<and> AZ_ci c \<and> 5 \<le> length (takeWhile (\<lambda>c. AZ_ci c \<or> is_space c) r))"
proof -
  have tail: "match_seq [opt (\<lambda>c. c = CHR '':'')] t \<noteq> None" for t
    by (rule match_seq_optional) (simp add: opt_def)
  have "match_seq [((\<lambda>c. AZ_ci c \<or> is_space c), 5, Some 50), opt (\<lambda>c. c = CHR '':'')] r \<noteq> None
      \<longleftrightarrow> 5 \<le> length (takeWhile (\<lambda>c. AZ_ci c \<or> is_space c) r)" for r
  proof -
    have "match_seq [((\<lambda>c. AZ_ci c \<or> is_space c), 5, Some 50), opt (\<lambda>c. c = CHR '':'')] r \<noteq> None
        \<longleftrightarrow> (\<exists>n. 5 \<le> n \<and> n \<le> length (takeWhile (\<lambda>c. AZ_ci c \<or> is_space c) r) \<and> n \<le> 50)"
      unfolding match_seq_Cons_iff [of _ 5] using tail by simp
    also have "\<dots> \<longleftrightarrow> 5 \<le> length (takeWhile (\<lambda>c. AZ_ci c \<or> is_space c) r)"
    proof
      assume "\<exists>n. 5 \<le> n \<and> n \<le> length (takeWhile (\<lambda>c. AZ_ci c \<or> is_space c) r) \<and> n \<le> 50"
      then show "5 \<le> length (takeWhile (\<lambda>c. AZ_ci c \<or> is_space c) r)"
        by auto
    next
      assume "5 \<le> length (takeWhile (\<lambda>c. AZ_ci c \<or> is_space c) r)"
      then show "\<exists>n. 5 \<le> n \<and> n \<le> length (takeWhile (\<lambda>c. AZ_ci c \<or> is_space c) r) \<and> n \<le> 50"
        by (intro exI [of _ 5]) simp
    qed
    finally show ?thesis .
  qed
  then show ?thesis
    unfolding match_once_iff by simp
qed

lemma lower_Chapter: "lower ''Chapter'' = ''chapter''"
  by code_simp

lemma lower_Section: "lower ''Section'' = ''section''"
  by code_simp

lemma is_heading_iff:
  "is_heading p \<longleftrightarrow>
     (\<exists>n r. 1 \<le> n \<and> n \<le> 3 \<and> p = replicate n (CHR ''#'') @ r \<and> r \<noteq> [] \<and> is_space (hd r)) \<or>
     (\<exists>u ws d r. p = u @ ws @ d # r \<and> (lower u = ''chapter'' \<or> lower u = ''section'') \<and>
        ws \<noteq> [] \<and> (\<forall>c \<in> set ws. is_space c) \<and> is_digit d) \<or>
     (\<exists>c r. p = c # r \<and> AZ_ci c \<and> 5 \<le> length (takeWhile (\<lambda>c. AZ_ci c \<or> is_space c) r))"
proof -
  let ?tail = "[one_or_more is_space, one_or_more is_digit, opt (\<lambda>c. c \<in> set '':-''),
      zero_or_more is_space]"
  let ?a1 = "[((\<lambda>c. c = CHR ''#''), 1, Some 3), one_or_more is_space]"
  let ?a4 = "[once AZ_ci, ((\<lambda>c. AZ_ci c \<or> is_space c), 5, Some 50), opt (\<lambda>c. c = CHR '':'')]"
  have "is_heading p \<longleftrightarrow>
      (\<exists>alt \<in> set [?a1, word_ci ''Chapter'' @ ?tail, word_ci ''Section'' @ ?tail, ?a4].
          match_seq alt p \<noteq> None)"
    unfolding is_heading_def re_match_def heading_pattern_def by (rule first_some_map_iff)
  also have "\<dots> \<longleftrightarrow> match_seq ?a1 p \<noteq> None \<or> match_seq (word_ci ''Chapter'' @ ?tail) p \<noteq> None \<or>
      match_seq (word_ci ''Section'' @ ?tail) p \<noteq> None \<or> match_seq ?a4 p \<noteq> None"
    by (simp only: list.set bex_simps ball_simps insert_iff empty_iff Bex_def) blast
  also have "\<dots> \<longleftrightarrow>
     (\<exists>n r. 1 \<le> n \<and> n \<le> 3 \<and> p = replicate n (CHR ''#'') @ r \<and> r \<noteq> [] \<and> is_space (hd r)) \<or>
     (\<exists>u ws d r. p = u @ ws @ d # r \<and> (lower u = ''chapter'' \<or> lower u = ''section'') \<and>
        ws \<noteq> [] \<and> (\<forall>c \<in> set ws. is_space c) \<and> is_digit d) \<or>
     (\<exists>c r. p = c # r \<and> AZ_ci c \<and> 5 \<le> length (takeWhile (\<lambda>c. AZ_ci c \<or> is_space c) r))"
    unfolding match_markdown_iff match_numbered_iff match_capitals_iff lower_Chapter lower_Section
    by blast
  finally show ?thesis .
qed

text \<open>
  C4. The claim takes a paragraph for a heading only if it has a markdown prefix, a
  Chapter or Section prefix, or is a line of 6 to 50 capitals and spaces. The pattern
  is compiled with \<open>re.IGNORECASE\<close> and is matched as a prefix, so its last alternative
  accepts every paragraph that begins with a letter followed by five letters or
  spaces of either case (\<open>is_heading_iff\<close>): ordinary prose is taken for a heading,
  of any length.
\<close>

theorem is_heading_prose:
  "is_heading ''Some more text.'' \<and>
   is_heading ''Recursion is a technique in which a function calls itself.''"
  by code_simp

section \<open>Properties of the sub-question generator\<close>

lemma clean_loop_well_formed:
  "\<forall>q \<in> set acc. endswith q ''?'' \<and> length q \<le> 150 \<Longrightarrow>
     \<forall>q \<in> set (clean_loop ls acc). endswith q ''?'' \<and> length q \<le> 150"
proof (induction ls arbitrary: acc)
  case Nil
  then show ?case by simp
next
  case (Cons l ls)
  let ?line = "clean_line (strip l)"
  show ?case
  proof (cases "strip l \<noteq> [] \<and> length ?line \<le> 150 \<and> endswith ?line ''?''")
    case True
    then have step: "clean_loop (l # ls) acc = clean_loop ls (acc @ [?line])"
      by (simp add: Let_def)
    have "\<forall>q \<in> set (acc @ [?line]). endswith q ''?'' \<and> length q \<le> 150"
      using Cons.prems True by simp
    then have "\<forall>q \<in> set (clean_loop ls (acc @ [?line])). endswith q ''?'' \<and> length q \<le> 150"
      by (rule Cons.IH)
    then show ?thesis
      by (simp only: step)
  next
    case False
    have step: "clean_loop (l # ls) acc = clean_loop ls acc"
    proof (cases "strip l = []")
      case True
      then show ?thesis by (simp add: Let_def)
    next
      case nonblank: False
      with False have "length ?line > 150 \<or> \<not> endswith ?line ''?''"
        by auto
      with nonblank show ?thesis by (simp add: Let_def)
    qed
    have "\<forall>q \<in> set (clean_loop ls acc). endswith q ''?'' \<and> length q \<le> 150"
      using Cons.prems by (rule Cons.IH)
    then show ?thesis
      by (simp only: step)
  qed
qed

text \<open>
  C10. Whatever the completion client does, also when it raises or returns no content,
  \<open>generate_sub_questions\<close> returns a list: either the single fallback question, or a
  non-empty list of at most three lines, each ending in a question mark and at most
  150 characters long. No error leaves it.
\<close>

theorem generate_sub_questions_shape:
  "\<exists>qs. generate_sub_questions env main_question lang = Inr qs \<and>
     (qs = fallback main_question \<or>
      (qs \<noteq> [] \<and> length qs \<le> 3 \<and> (\<forall>q \<in> set qs. endswith q ''?'' \<and> length q \<le> 150)))"
proof -
  define r where
    "r = chat_create env [(''user'', sub_question_prompt main_question lang)] (1 / 10) 150"
  have body: "sub_questions_try env main_question lang =
      (case r of
         Inl e \<Rightarrow> Inl e
       | Inr (None, _, _) \<Rightarrow> Inl AttributeError
       | Inr (Some c, _, _) \<Rightarrow>
           let raw = strip c;
               cleaned_questions = clean_loop (split raw [LF]) []
           in if length cleaned_questions = 0 then Inr (fallback main_question)
              else Inr (take 3 cleaned_questions))"
    unfolding sub_questions_try_def r_def ..
  show ?thesis
  proof (cases r)
    case (Inl e)
    then show ?thesis
      by (simp only: generate_sub_questions_def body sum.case) simp
  next
    case (Inr p)
    obtain c i out where p: "p = (c, i, out)"
      by (cases p)
    show ?thesis
    proof (cases c)
      case None
      with Inr p show ?thesis
        by (simp only: generate_sub_questions_def body sum.case prod.case option.case) simp
    next
      case (Some content)
      let ?cl = "clean_loop (split (strip content) [LF]) []"
      have res: "generate_sub_questions env main_question lang =
          Inr (if ?cl = [] then fallback main_question else take 3 ?cl)"
        using Inr p Some
        by (simp only: generate_sub_questions_def body sum.case prod.case option.case Let_def)
           (simp split: if_splits)
      have "\<forall>q \<in> set ?cl. endswith q ''?'' \<and> length q \<le> 150"
        by (rule clean_loop_well_formed) simp
      then have "\<forall>q \<in> set (take 3 ?cl). endswith q ''?'' \<and> length q \<le> 150"
        by (meson in_set_takeD)
      then show ?thesis
        unfolding res by (cases "?cl = []") simp_all
    qed
  qed
qed

theorem generate_sub_questions_shape_witness:
  "generate_sub_questions talkative_env ''trees'' ''en'' =
     Inr [''What is a tree?'', ''Why?'', ''What is a leaf?''] \<and>
   [''What is a tree?'', ''Why?'', ''What is a leaf?''] \<noteq> fallback ''trees'' \<and>
   endswith ''What is a tree?'' ''?'' \<and> endswith ''Why?'' ''?'' \<and> endswith ''What is a leaf?'' ''?'' \<and>
   generate_sub_questions failing_env ''trees'' ''en'' = Inr [''What is trees?'']"
proof -
  have c: "clean_loop (split (strip ''1. What is a tree?\<newline>- Why?\<newline>\<newline>a remark\<newline>What is a leaf?\<newline>What is a root?'') [LF]) [] =
      [''What is a tree?'', ''Why?'', ''What is a leaf?'', ''What is a root?'']"
    by code_simp
  have a: "generate_sub_questions talkative_env ''trees'' ''en'' =
     Inr [''What is a tree?'', ''Why?'', ''What is a leaf?'']"
    by (simp add: generate_sub_questions_def sub_questions_try_def talkative_env_def
        demo_env_def c)
  have b: "generate_sub_questions failing_env ''trees'' ''en'' = Inr [''What is trees?'']"
    by (simp add: generate_sub_questions_def sub_questions_try_def failing_env_def fallback_def)
  show ?thesis
    using generate_sub_questions_shape [of talkative_env "''trees''" "''en''"]
      generate_sub_questions_shape [of failing_env "''trees''" "''en''"]
    by (simp add: a b fallback_def)
qed

section \<open>Properties of extraction\<close>

lemma extract_text_from_file_total:
  "\<exists>t. extract_text_from_file fs filepath = Inr t"
  by (simp add: extract_text_from_file_def split: sum.split)

text \<open>
  C3, as stated: a path with an extension that has no handler makes
  \<open>extract_text_from_file\<close> fail with an error that reaches the caller. It does not:
  the error is raised inside the \<open>try\<close> and the handler turns it into the empty string.
\<close>

theorem unsupported_extension_counterexample:
  "lower (snd (splitext ''notes.xyz'')) = ''.xyz'' \<and>
   extract_text_from_file demo_files ''notes.xyz'' = Inr [] \<and>
   \<not> isl (extract_text_from_file demo_files ''notes.xyz'')"
proof -
  have ext: "lower (snd (splitext ''notes.xyz'')) = ''.xyz''"
    by code_simp
  then show ?thesis
    by (simp add: extract_text_from_file_def extract_try_def)
qed

text \<open>
  C3, amended: for a path whose extension is none of .pdf, .txt, .docx and .csv, the
  body of \<open>extract_text_from_file\<close> raises the error for an unsupported file, the
  handler of the function catches it, and the caller receives the empty string, as
  for every other failure of extraction.
\<close>

theorem unsupported_extension_swallowed:
  assumes "lower (snd (splitext filepath)) \<notin> {''.pdf'', ''.txt'', ''.docx'', ''.csv''}"
  shows "extract_try fs filepath =
           Inl (ValueError (''Unsupported file: '' @ lower (snd (splitext filepath)))) \<and>
         extract_text_from_file fs filepath = Inr []"
proof -
  have "extract_try fs filepath =
      Inl (ValueError (''Unsupported file: '' @ lower (snd (splitext filepath))))"
    using assms by (simp add: extract_try_def Let_def)
  then show ?thesis
    by (simp add: extract_text_from_file_def)
qed

theorem unsupported_extension_swallowed_witness:
  "lower (snd (splitext ''notes.xyz'')) \<notin> {''.pdf'', ''.txt'', ''.docx'', ''.csv''} \<and>
   extract_try demo_files ''notes.xyz'' = Inl (ValueError ''Unsupported file: .xyz'') \<and>
   extract_text_from_file demo_files ''notes.xyz'' = Inr []"
proof -
  have ext: "lower (snd (splitext ''notes.xyz'')) = ''.xyz''"
    by code_simp
  then have h: "lower (snd (splitext ''notes.xyz'')) \<notin> {''.pdf'', ''.txt'', ''.docx'', ''.csv''}"
    by simp
  show ?thesis
    using unsupported_extension_swallowed [OF h, of demo_files] h
    by (simp add: ext)
qed

section \<open>Properties of context assembly\<close>

lemma length_join:
  "length (join sep ps) = sum_list (map length ps) + length sep * (length ps - 1)"
  by (induction sep ps rule: join.induct) simp_all

lemma context_loop_budget:
  "sum_list (map length parts) = sz \<Longrightarrow> sz \<le> MAX_CONTEXT_CHARS \<Longrightarrow>
     sum_list (map length (context_loop ims parts sz)) \<le> MAX_CONTEXT_CHARS"
proof (induction ims arbitrary: parts sz)
  case Nil
  then show ?case by simp
next
  case (Cons im ims)
  obtain i m where im: "im = (i, m)"
    by (cases im)
  let ?chunk = "format_chunk i m (get_text m)"
  consider (skip) "get_text m = []"
    | (stop) "get_text m \<noteq> []" "sz + length ?chunk > MAX_CONTEXT_CHARS"
    | (add) "get_text m \<noteq> []" "sz + length ?chunk \<le> MAX_CONTEXT_CHARS"
    by linarith
  then show ?case
  proof cases
    case skip
    then have "context_loop (im # ims) parts sz = context_loop ims parts sz"
      by (simp add: im)
    moreover have "sum_list (map length (context_loop ims parts sz)) \<le> MAX_CONTEXT_CHARS"
      using Cons.prems by (rule Cons.IH)
    ultimately show ?thesis by simp
  next
    case stop
    then have "context_loop (im # ims) parts sz = parts"
      by (simp add: im Let_def)
    with Cons.prems show ?thesis by simp
  next
    case add
    then have "context_loop (im # ims) parts sz =
        context_loop ims (parts @ [?chunk]) (sz + length ?chunk)"
      by (simp add: im Let_def)
    moreover have "sum_list (map length (context_loop ims (parts @ [?chunk]) (sz + length ?chunk)))
        \<le> MAX_CONTEXT_CHARS"
    proof (rule Cons.IH)
      show "sum_list (map length (parts @ [?chunk])) = sz + length ?chunk"
        using Cons.prems(1) by simp
      show "sz + length ?chunk \<le> MAX_CONTEXT_CHARS"
        by (rule add(2))
    qed
    ultimately show ?thesis by simp
  qed
qed

lemma build_context_budget:
  "sum_list (map length (context_loop (enumerate 1 (sorted_matches ms)) [] 0)) \<le> MAX_CONTEXT_CHARS"
  by (rule context_loop_budget) simp_all

lemma build_context_length_bound:
  "length (build_context ms) \<le>
     MAX_CONTEXT_CHARS + (length (context_loop (enumerate 1 (sorted_matches ms)) [] 0) - 1)"
  using build_context_budget [of ms] by (simp add: build_context_def length_join)

lemma str_nat_1: "str_nat (Suc 0) = ''1''"
  by code_simp

lemma str_nat_2: "str_nat (Suc (Suc 0)) = ''2''"
  by code_simp

lemma f900: "format_3f (9 / 10) = ''0.900''"
  by code_simp

lemma f700: "format_3f (7 / 10) = ''0.700''"
  by code_simp

lemma f500: "format_3f (1 / 2) = ''0.500''"
  by code_simp

text \<open>
  C1. The loop counts the characters of the chunks it keeps, and their sum stays
  within \<open>MAX_CONTEXT_CHARS\<close> (\<open>build_context_budget\<close>). The function returns the chunks
  joined by newlines, which the count leaves out: two chunks of 3500 characters are
  both kept, and the string returned has 7001 characters.
\<close>

theorem build_context_over_budget:
  "length (build_context two_halves) = 7001 \<and> MAX_CONTEXT_CHARS = 7000"
proof -
  let ?a = "match_of ''a'' (9 / 10) (replicate 3481 (CHR ''a''))"
  let ?b = "match_of ''b'' (7 / 10) (replicate 3481 (CHR ''b''))"
  let ?ca = "format_chunk (Suc 0) ?a (replicate 3481 (CHR ''a''))"
  let ?cb = "format_chunk (Suc (Suc 0)) ?b (replicate 3481 (CHR ''b''))"
  have s: "sorted_matches two_halves = [?a, ?b]"
    by (simp add: sorted_matches_def two_halves_def get_score_def match_of_def)
  have ta: "get_text ?a = replicate 3481 (CHR ''a'')"
    and tb: "get_text ?b = replicate 3481 (CHR ''b'')"
    by (simp_all add: get_text_def match_of_def)
  have ca: "length ?ca = 3500"
    by (simp add: format_chunk_def get_score_def match_of_def str_nat_1 f900)
  have cb: "length ?cb = 3500"
    by (simp add: format_chunk_def get_score_def match_of_def str_nat_2 f700)
  have "context_loop (enumerate 1 [?a, ?b]) [] 0 = [?ca, ?cb]"
    by (simp add: ta tb ca cb Let_def MAX_CONTEXT_CHARS_def)
  then show ?thesis
    by (simp add: build_context_def s ca cb MAX_CONTEXT_CHARS_def)
qed

lemma context_loop_extends:
  "\<exists>ext. context_loop ims parts sz = parts @ ext"
proof (induction ims arbitrary: parts sz)
  case Nil
  then show ?case by simp
next
  case (Cons im ims)
  obtain i m where im: "im = (i, m)"
    by (cases im)
  let ?chunk = "format_chunk i m (get_text m)"
  consider (skip) "get_text m = []"
    | (stop) "get_text m \<noteq> []" "sz + length ?chunk > MAX_CONTEXT_CHARS"
    | (add) "get_text m \<noteq> []" "sz + length ?chunk \<le> MAX_CONTEXT_CHARS"
    by linarith
  then show ?case
  proof cases
    case skip
    then have "context_loop (im # ims) parts sz = context_loop ims parts sz"
      by (simp add: im)
    then show ?thesis
      using Cons.IH [of parts sz] by simp
  next
    case stop
    then have "context_loop (im # ims) parts sz = parts"
      by (simp add: im Let_def)
    then show ?thesis by simp
  next
    case add
    then have "context_loop (im # ims) parts sz =
        context_loop ims (parts @ [?chunk]) (sz + length ?chunk)"
      by (simp add: im Let_def)
    moreover obtain ext where
      "context_loop ims (parts @ [?chunk]) (sz + length ?chunk) = (parts @ [?chunk]) @ ext"
      using Cons.IH by blast
    ultimately have "context_loop (im # ims) parts sz = parts @ (?chunk # ext)"
      by simp
    then show ?thesis by blast
  qed
qed

lemma context_loop_append:
  "\<exists>ext. context_loop (ims @ jms) parts sz = context_loop ims parts sz @ ext"
proof (induction ims arbitrary: parts sz)
  case Nil
  then show ?case
    using context_loop_extends [of jms parts sz] by simp
next
  case (Cons im ims)
  obtain i m where im: "im = (i, m)"
    by (cases im)
  let ?chunk = "format_chunk i m (get_text m)"
  consider (skip) "get_text m = []"
    | (stop) "get_text m \<noteq> []" "sz + length ?chunk > MAX_CONTEXT_CHARS"
    | (add) "get_text m \<noteq> []" "sz + length ?chunk \<le> MAX_CONTEXT_CHARS"
    by linarith
  then show ?case
  proof cases
    case skip
    then have "context_loop ((im # ims) @ jms) parts sz = context_loop (ims @ jms) parts sz"
      and "context_loop (im # ims) parts sz = context_loop ims parts sz"
      by (simp_all add: im)
    then show ?thesis
      using Cons.IH [of parts sz] by simp
  next
    case stop
    then have "context_loop ((im # ims) @ jms) parts sz = parts"
      and "context_loop (im # ims) parts sz = parts"
      by (simp_all add: im Let_def)
    then show ?thesis by simp
  next
    case add
    then have "context_loop ((im # ims) @ jms) parts sz =
        context_loop (ims @ jms) (parts @ [?chunk]) (sz + length ?chunk)"
      and "context_loop (im # ims) parts sz =
        context_loop ims (parts @ [?chunk]) (sz + length ?chunk)"
      by (simp_all add: im Let_def)
    then show ?thesis
      using Cons.IH [of "parts @ [?chunk]" "sz + length ?chunk"] by simp
  qed
qed

lemma length_join_append:
  "length (join sep ps) \<le> length (join sep (ps @ ext))"
proof -
  have a: "length sep * (length ps - 1) \<le> length sep * (length (ps @ ext) - 1)"
    by (rule mult_le_mono2) simp
  have b: "sum_list (map length ps) \<le> sum_list (map length (ps @ ext))"
    by simp
  show ?thesis
    using add_mono [OF b a] by (simp only: length_join)
qed

lemma sorted_matches_lowest_last:
  assumes before: "\<forall>x \<in> set xs. get_score m \<le> get_score x"
    and after: "\<forall>y \<in> set ys. get_score m < get_score y"
  shows "sorted_matches (xs @ m # ys) = sorted_matches (xs @ ys) @ [m]"
proof -
  let ?f = "\<lambda>m. - get_score m"
  let ?rest = "sort_key ?f (xs @ ys)"
  have "sort_key ?f (xs @ m # ys) = ?rest @ [m]"
  proof (rule properties_for_sort_key)
    show "mset (?rest @ [m]) = mset (xs @ m # ys)"
      by simp
  next
    fix k
    define P where "P = (\<lambda>x. ?f k = ?f x)"
    have "filter (\<lambda>y. ?f y = ?f k) ?rest = filter (\<lambda>y. ?f y = ?f k) (xs @ ys)"
      by (rule sort_key_stable)
    moreover have "(\<lambda>y. ?f y = ?f k) = P"
      by (auto simp: P_def)
    ultimately have stable: "filter P ?rest = filter P (xs @ ys)"
      by simp
    have tail: "P m \<Longrightarrow> filter P ys = []"
      using after by (auto simp: P_def filter_empty_conv)
    have "filter P (?rest @ [m]) = filter P (xs @ m # ys)"
      using tail by (cases "P m") (simp_all add: stable)
    then show "filter (\<lambda>x. ?f k = ?f x) (?rest @ [m]) = filter (\<lambda>x. ?f k = ?f x) (xs @ m # ys)"
      by (simp only: P_def)
  next
    have "\<forall>a \<in> set (xs @ ys). ?f a \<le> ?f m"
      using before after by auto
    then show "sorted (map ?f (?rest @ [m]))"
      by (simp add: sorted_append)
  qed
  then show ?thesis
    by (simp add: sorted_matches_def)
qed

text \<open>
  C8, amended: removing the match that the stable sort ranks last, that is a match
  with the lowest score which, among the matches that share this score, comes last in
  the input, never makes the string returned by \<open>build_context\<close> longer.
\<close>

theorem build_context_drop_last_ranked:
  assumes "\<forall>x \<in> set xs. get_score m \<le> get_score x"
    and "\<forall>y \<in> set ys. get_score m < get_score y"
  shows "length (build_context (xs @ ys)) \<le> length (build_context (xs @ m # ys))"
proof -
  let ?s = "sorted_matches (xs @ ys)"
  have "sorted_matches (xs @ m # ys) = ?s @ [m]"
    using assms by (rule sorted_matches_lowest_last)
  then have "enumerate 1 (sorted_matches (xs @ m # ys)) =
      enumerate 1 ?s @ [(1 + length ?s, m)]"
    by (simp add: enumerate_append_eq)
  moreover obtain ext where
    "context_loop (enumerate 1 ?s @ [(1 + length ?s, m)]) [] 0 =
       context_loop (enumerate 1 ?s) [] 0 @ ext"
    using context_loop_append by blast
  ultimately have "build_context (xs @ m # ys) =
      join [LF] (context_loop (enumerate 1 ?s) [] 0 @ ext)"
    by (simp add: build_context_def)
  then show ?thesis
    by (simp add: build_context_def length_join_append)
qed

text \<open>
  C8, as stated: removing a lowest-scored match never makes the result longer. With
  two matches of equal score the first one in the input is a lowest-scored match;
  while it is present the second no longer fits the budget, and once it is removed the
  second is packed alone: the result grows from 20 to 7000 characters.
\<close>

theorem build_context_tie_counterexample:
  "get_score tie_small \<le> get_score tie_large \<and>
   length (build_context [tie_small, tie_large]) = 20 \<and>
   length (build_context [tie_large]) = 7000"
proof -
  let ?tb = "replicate 6981 (CHR ''b'')"
  have sc: "get_score tie_small = 1 / 2" "get_score tie_large = 1 / 2"
    by (simp_all add: get_score_def tie_small_def tie_large_def match_of_def)
  have tx: "get_text tie_small = ''a''" "get_text tie_large = ?tb"
    by (simp_all add: get_text_def tie_small_def tie_large_def match_of_def)
  have s2: "sorted_matches [tie_small, tie_large] = [tie_small, tie_large]"
    by (simp add: sorted_matches_def sc)
  have s1: "sorted_matches [tie_large] = [tie_large]"
    by (simp add: sorted_matches_def)
  have c1: "length (format_chunk (Suc 0) tie_small ''a'') = 20"
    by (simp add: format_chunk_def sc str_nat_1 f500)
  have c2: "length (format_chunk (Suc (Suc 0)) tie_large ?tb) = 7000"
    by (simp add: format_chunk_def sc str_nat_2 f500)
  have c3: "length (format_chunk (Suc 0) tie_large ?tb) = 7000"
    by (simp add: format_chunk_def sc str_nat_1 f500)
  have l2: "context_loop (enumerate 1 [tie_small, tie_large]) [] 0 =
      [format_chunk (Suc 0) tie_small ''a'']"
    by (simp add: tx c1 c2 Let_def MAX_CONTEXT_CHARS_def)
  have l1: "context_loop (enumerate 1 [tie_large]) [] 0 = [format_chunk (Suc 0) tie_large ?tb]"
    by (simp add: tx c3 Let_def MAX_CONTEXT_CHARS_def)
  show ?thesis
    by (simp only: build_context_def s1 s2 l1 l2) (simp add: c1 c3 sc)
qed

theorem build_context_drop_last_ranked_witness:
  "get_score tie_large \<le> get_score tie_small \<and>
   get_score tie_large < get_score (match_of ''c'' (9 / 10) ''c'') \<and>
   length (build_context [tie_small, match_of ''c'' (9 / 10) ''c'']) \<le>
     length (build_context [tie_small, tie_large, match_of ''c'' (9 / 10) ''c''])"
proof -
  have sc: "get_score tie_small = 1 / 2" "get_score tie_large = 1 / 2"
    "get_score (match_of ''c'' (9 / 10) ''c'') = 9 / 10"
    by (simp_all add: get_score_def tie_small_def tie_large_def match_of_def)
  show ?thesis
    using build_context_drop_last_ranked
      [of "[tie_small]" tie_large "[match_of ''c'' (9 / 10) ''c'']"]
    by (simp add: sc)
qed

section \<open>Properties of retrieval\<close>

text \<open>
  The two branches agree on an index in which every record carries \<open>expires_at\<close>,
  when \<open>top_k\<close> is at least the number of records.
\<close>

lemma not_expired_to_match:
  "vec_metadata v = Some d \<Longrightarrow> md_expires_at d = Some e \<Longrightarrow>
     not_expired ts (to_match env qvec v) = satisfies (Some (ExpiresAtGt ts)) (vec_metadata v)"
  by (simp add: not_expired_def to_match_def satisfies_def)

lemma query_matches_agree:
  assumes carries: "\<forall>v \<in> set vs. \<exists>d e. vec_metadata v = Some d \<and> md_expires_at d = Some e"
    and all: "length vs \<le> top_k"
  shows "query_matches (env\<lparr>PINECONE_NEW := True\<rparr>) vs qvec top_k ts =
         query_matches (env\<lparr>PINECONE_NEW := False\<rparr>) vs qvec top_k ts"
proof -
  let ?f = "\<lambda>m. - get_score m"
  let ?sat = "\<lambda>v. satisfies (Some (ExpiresAtGt ts)) (vec_metadata v)"
  have tm: "to_match (env\<lparr>PINECONE_NEW := b\<rparr>) qvec = to_match env qvec" for b
    by (intro ext) (simp add: to_match_def)
  have "filter (not_expired ts) (map (to_match env qvec) vs) =
      map (to_match env qvec) (filter ?sat vs)"
    unfolding filter_map
    using carries by (intro arg_cong [where f = "map (to_match env qvec)"] filter_cong)
      (auto simp: not_expired_to_match)
  then have "filter (not_expired ts) (sort_key ?f (map (to_match env qvec) vs)) =
      sort_key ?f (map (to_match env qvec) (filter ?sat vs))"
    by (simp add: filter_sort)
  moreover have "length (filter ?sat vs) \<le> top_k"
    using all by (meson le_trans length_filter_le)
  moreover have "satisfies None md" for md
    by (simp add: satisfies_def)
  ultimately show ?thesis
    using all by (simp add: query_matches_def index_query_def DEFAULT_TTL_HOURS_def tm)
qed

text \<open>
  C2. The two branches of \<open>retrieve\<close> are not equivalent. The new client hands the
  filter to the index, which applies it before it cuts the result to \<open>top_k\<close> and
  which matches no record without the field; the old client cuts to \<open>top_k\<close> first,
  filters afterwards and keeps a record without the field. With \<open>top_k = 1\<close> and an
  expired nearest record the first returns the live record and the second nothing;
  for a record without \<open>expires_at\<close> the first returns nothing and the second the
  record.
\<close>

theorem retrieve_paths_differ:
  "fst (retrieve demo_env ''notes'' 1 expired_near_world) = Inr [match_of ''far'' (1 / 2) ''New notes.''] \<and>
   fst (retrieve legacy_env ''notes'' 1 expired_near_world) = Inr [] \<and>
   fst (retrieve demo_env ''notes'' TOP_K no_expiry_world) = Inr [] \<and>
   fst (retrieve legacy_env ''notes'' TOP_K no_expiry_world) =
     Inr [\<lparr>match_id = ''plain'', score = Some (9 / 10),
           metadata = Some \<lparr>md_title = ''Notes'', md_text = Some ''Kept for ever.'',
                             md_source = ''file_notes.txt'', md_created_at = 1000,
                             md_expires_at = None\<rparr>\<rparr>]"
proof -
  have t: "py_int 1000 = 1000"
    by (simp add: py_int_def)
  have a: "fst (retrieve demo_env ''notes'' 1 expired_near_world) =
      Inr [match_of ''far'' (1 / 2) ''New notes.'']"
    by (simp add: retrieve_def embed_text_def demo_env_def time_time_def t query_matches_def
        DEFAULT_TTL_HOURS_def index_query_def satisfies_def vector_of_def to_match_def
        get_text_def match_of_def expired_near_world_def)
  have b: "fst (retrieve legacy_env ''notes'' 1 expired_near_world) = Inr []"
    by (simp add: retrieve_def embed_text_def legacy_env_def demo_env_def time_time_def t
        query_matches_def DEFAULT_TTL_HOURS_def index_query_def satisfies_def vector_of_def
        to_match_def get_score_def not_expired_def expired_near_world_def)
  have c: "fst (retrieve demo_env ''notes'' TOP_K no_expiry_world) = Inr []"
    by (simp add: retrieve_def embed_text_def demo_env_def time_time_def t query_matches_def
        DEFAULT_TTL_HOURS_def index_query_def satisfies_def vector_of_def no_expiry_world_def)
  have d: "fst (retrieve legacy_env ''notes'' TOP_K no_expiry_world) =
     Inr [\<lparr>match_id = ''plain'', score = Some (9 / 10),
           metadata = Some \<lparr>md_title = ''Notes'', md_text = Some ''Kept for ever.'',
                             md_source = ''file_notes.txt'', md_created_at = 1000,
                             md_expires_at = None\<rparr>\<rparr>]"
    by (simp add: retrieve_def embed_text_def legacy_env_def demo_env_def time_time_def t
        query_matches_def DEFAULT_TTL_HOURS_def index_query_def satisfies_def vector_of_def
        to_match_def get_text_def not_expired_def TOP_K_def no_expiry_world_def)
  from a b c d show ?thesis
    by (simp only: simp_thms)
qed

section \<open>Properties of the orchestrator\<close>



lemma answer_retrieve_error:
  "retrieve env question TOP_K w = (Inl e, w1) \<Longrightarrow>
     answer env question style lang w = (Inl e, w1)"
  by (simp add: answer_def)





section \<open>Properties of upsert\<close>

















end
